theory Spec2Isabelle
  imports Main "HOL-Library.AList"
begin

section \<open>Data model\<close>

text \<open>
  The payload of a row is an arbitrary JSON value (\<open>data: SchemaTypes.Mixed\<close>); the driver
  never inspects it. Numbers are kept integral, which is all the properties below need.
\<close>

datatype json =
    JNull
  | JBool bool
  | JNum int
  | JStr string
  | JArr "json list"
  | JObj "(string \<times> json) list"

text \<open>
  \<open>CollectionInterface\<close>: one stored document. Timestamps are readings of the store's
  clock; \<open>expireAt\<close> is \<open>None\<close> for the schema default \<open>null\<close>.
\<close>

record doc =
  ID :: string
  data :: json
  createdAt :: nat
  updatedAt :: nat
  expireAt :: "nat option"

text \<open>
  What a call can throw: the \<open>Error\<close> raised by \<open>checkConnection\<close>, a rejected
  \<open>createConnection\<close>, a rejection coming from the store client, and the \<open>TypeError\<close> of a
  member access on \<open>undefined\<close>.
\<close>

datatype error = NotConnected | ConnectionError | BackendQueryError | TypeError

text \<open>
  The two shapes of filter object the driver passes to the store client: no filter at all,
  and \<open>{ ID: s }\<close> with \<open>s\<close> a string, which the client casts by the schema type of \<open>ID\<close>
  (String) and the store matches by equality.
\<close>

datatype selector = NoFilter | IDIs string

fun matches :: "selector \<Rightarrow> doc \<Rightarrow> bool" where
  "matches NoFilter d = True"
| "matches (IDIs s) d = (ID d = s)"

text \<open>Requests sent to the store, each on a named collection.\<close>

datatype store_call =
    CreateIndex string string nat
  | Find string selector
  | FindOne string selector
  | FindOneAndUpdate string selector json
  | DeleteMany string selector

text \<open>
  A table handle (\<open>Model\<close>) is bound to the connection that created it and carries its
  model name.
\<close>

record handle =
  h_conn :: nat
  h_name :: string

text \<open>
  One driver instance together with the part of the world it acts on.
  \<^item> \<open>conn\<close>, \<open>models\<close>: the fields of \<open>MongoDriver\<close>; \<open>models\<close> is the insertion-ordered
    \<open>Map\<close> from table name to handle.
  \<^item> \<open>naming\<close>: how a model name becomes a collection name (the effect of \<open>pluralize\<close>).
  \<^item> \<open>reachable\<close>: whether \<open>createConnection\<close> succeeds.
  \<^item> \<open>opened\<close>: the connections that are currently open; \<open>next_conn\<close> numbers them.
  \<^item> \<open>colls\<close>: the database, a list of documents per collection name.
  \<^item> \<open>indexes\<close>: the expiring indexes the store holds: collection, field and
    \<open>expireAfterSeconds\<close>.
  \<^item> \<open>trace\<close>: every request sent to the store, with the connection it was sent on.
  \<^item> \<open>clock\<close>: the store's current time.
\<close>

record state =
  conn :: "nat option"
  models :: "(string \<times> handle) list"
  naming :: "string \<Rightarrow> string"
  reachable :: bool
  opened :: "nat list"
  next_conn :: nat
  colls :: "string \<Rightarrow> doc list"
  indexes :: "(string \<times> string \<times> nat) list"
  trace :: "(nat \<times> store_call) list"
  clock :: nat

section \<open>Sequencing of fallible, stateful calls\<close>

type_synonym 'a action = "state \<Rightarrow> (error + 'a) \<times> state"

definition ret :: "'a \<Rightarrow> 'a action" where
  "ret x s = (Inr x, s)"

definition throw :: "error \<Rightarrow> 'a action" where
  "throw e s = (Inl e, s)"

text \<open>\<open>andThen m f\<close>: run \<open>m\<close>; an exception ends the call, a value is passed on to \<open>f\<close>.\<close>

definition andThen :: "'a action \<Rightarrow> ('a \<Rightarrow> 'b action) \<Rightarrow> 'b action" where
  "andThen m f s = (case m s of (Inl e, s') \<Rightarrow> (Inl e, s') | (Inr x, s') \<Rightarrow> f x s')"

section \<open>The store client\<close>

text \<open>
  The driver reaches the database only through the calls below, made on a table handle.
  Each call is recorded in \<open>trace\<close>. A call on a handle whose connection is not open is
  rejected by the client and leaves the database as it is; otherwise it acts on the
  handle's collection as the store documents it:
  \<^item> \<open>find\<close> returns the matching documents, \<open>findOne\<close> the first of them or \<open>null\<close>;
  \<^item> \<open>findOneAndUpdate\<close> with \<open>$set: {data}\<close> and \<open>upsert: true\<close> rewrites \<open>data\<close> of the
    first match, or inserts a document built from the filter and the update when nothing
    matches (timestamps maintained, \<open>expireAt\<close> at its default);
  \<^item> \<open>deleteMany\<close> removes the matching documents and reports how many there were.
\<close>

definition coll_of :: "state \<Rightarrow> handle \<Rightarrow> string" where
  "coll_of s h = naming s (h_name h)"

definition issue :: "handle \<Rightarrow> store_call \<Rightarrow> unit action" where
  "issue h c s =
     (let s' = s\<lparr>trace := trace s @ [(h_conn h, c)]\<rparr>
      in if h_conn h \<in> set (opened s) then (Inr (), s') else (Inl BackendQueryError, s'))"

definition m_find :: "handle \<Rightarrow> selector \<Rightarrow> doc list action" where
  "m_find h sel s =
     andThen (issue h (Find (coll_of s h) sel))
       (\<lambda>_ s'. ret (filter (matches sel) (colls s' (coll_of s' h))) s') s"

definition m_findOne :: "handle \<Rightarrow> selector \<Rightarrow> doc option action" where
  "m_findOne h sel s =
     andThen (issue h (FindOne (coll_of s h) sel))
       (\<lambda>_ s'. ret (find (matches sel) (colls s' (coll_of s' h))) s') s"

fun upsert_data :: "string \<Rightarrow> json \<Rightarrow> nat \<Rightarrow> doc list \<Rightarrow> doc list" where
  "upsert_data k v t [] =
     [\<lparr>ID = k, data = v, createdAt = t, updatedAt = t, expireAt = None\<rparr>]"
| "upsert_data k v t (d # ds) =
     (if ID d = k then d\<lparr>data := v, updatedAt := t\<rparr> # ds
      else d # upsert_data k v t ds)"

definition m_findOneAndUpdate :: "handle \<Rightarrow> string \<Rightarrow> json \<Rightarrow> unit action" where
  "m_findOneAndUpdate h k v s =
     andThen (issue h (FindOneAndUpdate (coll_of s h) (IDIs k) v))
       (\<lambda>_ s'. ret ()
          (s'\<lparr>colls := (colls s')
                 (coll_of s' h := upsert_data k v (clock s') (colls s' (coll_of s' h)))\<rparr>)) s"

definition m_deleteMany :: "handle \<Rightarrow> selector \<Rightarrow> nat action" where
  "m_deleteMany h sel s =
     andThen (issue h (DeleteMany (coll_of s h) sel))
       (\<lambda>_ s'. ret (length (filter (matches sel) (colls s' (coll_of s' h))))
          (s'\<lparr>colls := (colls s')
                 (coll_of s' h := filter (\<lambda>d. \<not> matches sel d) (colls s' (coll_of s' h)))\<rparr>)) s"

section \<open>The driver\<close>

text \<open>
  The constructor. \<open>pluralize(null)\<close> makes collection names equal to model names; with
  \<open>pluralizeP\<close> the client's own pluralisation \<open>plural\<close> stays in force. The driver starts
  with no connection and an empty registry, in a world whose database holds \<open>db\<close> and
  no expiring index yet.
\<close>

definition MongoDriver ::
  "bool \<Rightarrow> (string \<Rightarrow> string) \<Rightarrow> bool \<Rightarrow> (string \<Rightarrow> doc list) \<Rightarrow> nat \<Rightarrow> state" where
  "MongoDriver pluralizeP plural up db now =
     \<lparr>conn = None, models = [],
      naming = (if \<not> pluralizeP then (\<lambda>n. n) else plural),
      reachable = up, opened = [], next_conn = 0, colls = db, indexes = [], trace = [],
      clock = now\<rparr>"

definition connect :: "unit action" where
  "connect s =
     (if reachable s
      then ret () (s\<lparr>conn := Some (next_conn s),
                      opened := next_conn s # opened s,
                      next_conn := Suc (next_conn s)\<rparr>)
      else throw ConnectionError s)"

definition disconnect :: "unit action" where
  "disconnect s =
     (case conn s of
        None \<Rightarrow> ret () s
      | Some c \<Rightarrow> ret () (s\<lparr>opened := removeAll c (opened s)\<rparr>))"

definition checkConnection :: "unit action" where
  "checkConnection s =
     (case conn s of None \<Rightarrow> throw NotConnected s | Some c \<Rightarrow> ret () s)"

text \<open>
  \<open>modelSchema\<close>: binds a model to the current connection and asks the store for an
  expiring index on \<open>expireAt\<close> with \<open>expireAfterSeconds: 0\<close>; the outcome of that request
  is discarded. On an open connection the store then holds the index; on a closed one the
  request is rejected and nothing changes. Registering the model on the connection object
  is local and sends nothing. The driver always passes the table name, so the default model name \<open>JSON\<close>
  plays no part.
\<close>

definition modelSchema :: "string \<Rightarrow> handle action" where
  "modelSchema modelName =
     andThen checkConnection
       (\<lambda>_ s. case conn s of
                 None \<Rightarrow> throw TypeError s
               | Some c \<Rightarrow>
                   ret \<lparr>h_conn = c, h_name = modelName\<rparr>
                     (s\<lparr>trace := trace s @
                          [(c, CreateIndex (naming s modelName) ''expireAt'' 0)],
                        indexes :=
                          (if c \<in> set (opened s)
                           then List.insert (naming s modelName, ''expireAt'', 0) (indexes s)
                           else indexes s)\<rparr>))"

definition prepare :: "string \<Rightarrow> unit action" where
  "prepare table =
     andThen checkConnection
       (\<lambda>_ s. if map_of (models s) table = None
               then andThen (modelSchema table)
                      (\<lambda>h s'. ret () (s'\<lparr>models := AList.update table h (models s')\<rparr>)) s
               else ret () s)"

definition getModel :: "string \<Rightarrow> handle option action" where
  "getModel name = andThen (prepare name) (\<lambda>_ s. ret (map_of (models s) name) s)"

definition getAllRows :: "string \<Rightarrow> (string \<times> json) list action" where
  "getAllRows table =
     andThen checkConnection (\<lambda>_.
     andThen (getModel table) (\<lambda>model.
       case model of
         None \<Rightarrow> throw TypeError
       | Some h \<Rightarrow>
           andThen (m_find h NoFilter) (\<lambda>rows.
           ret (map (\<lambda>row. (ID row, data row)) rows))))"

definition getRowByKey :: "string \<Rightarrow> string \<Rightarrow> (json \<times> bool) action" where
  "getRowByKey table key =
     andThen checkConnection (\<lambda>_.
     andThen (getModel table) (\<lambda>model.
       case model of
         None \<Rightarrow> throw TypeError
       | Some h \<Rightarrow>
           andThen (m_findOne h (IDIs key)) (\<lambda>res.
           ret (case res of Some r \<Rightarrow> (data r, True) | None \<Rightarrow> (JNull, False)))))"

text \<open>
  \<open>getStartsWith\<close>: the filter value is the template string \<open>`/^${query}/`\<close>, that is the
  text \<open>/^\<close>, the query, and \<open>/\<close>.
\<close>

definition getStartsWith :: "string \<Rightarrow> string \<Rightarrow> (string \<times> json) list action" where
  "getStartsWith table query =
     andThen checkConnection (\<lambda>_.
     andThen (getModel table) (\<lambda>model.
       case model of
         None \<Rightarrow> throw TypeError
       | Some h \<Rightarrow>
           andThen (m_find h (IDIs (''/^'' @ query @ ''/''))) (\<lambda>res.
           ret (map (\<lambda>row. (ID row, data row)) res))))"

definition setRowByKey :: "string \<Rightarrow> string \<Rightarrow> json \<Rightarrow> bool \<Rightarrow> json action" where
  "setRowByKey table key val update =
     andThen checkConnection (\<lambda>_.
     andThen (getModel table) (\<lambda>model.
     andThen (case model of
                None \<Rightarrow> ret ()
              | Some h \<Rightarrow> m_findOneAndUpdate h key val) (\<lambda>_.
     ret val)))"

definition deleteAllRows :: "string \<Rightarrow> nat action" where
  "deleteAllRows table =
     andThen checkConnection (\<lambda>_.
     andThen (getModel table) (\<lambda>model.
       case model of
         None \<Rightarrow> throw TypeError
       | Some h \<Rightarrow> m_deleteMany h NoFilter))"

definition deleteRowByKey :: "string \<Rightarrow> string \<Rightarrow> nat action" where
  "deleteRowByKey table key =
     andThen checkConnection (\<lambda>_.
     andThen (getModel table) (\<lambda>model.
       case model of
         None \<Rightarrow> throw TypeError
       | Some h \<Rightarrow> m_deleteMany h (IDIs key)))"

section \<open>The store's expiry monitor\<close>

text \<open>
  Expiry is the store's work, not the driver's: no function of the driver reads
  \<open>expireAt\<close> or deletes by age. A document is due in a collection at time \<open>now\<close> when
  its \<open>expireAt\<close> is a date \<open>t\<close> and the collection has an expiring index on \<open>expireAt\<close>
  whose offset \<open>n\<close> gives \<open>t + n \<le> now\<close>; a document whose \<open>expireAt\<close> is \<open>null\<close> is
  never due. One pass of the monitor at time \<open>now\<close> removes the documents that are due,
  in every collection.
\<close>

definition ttl_due :: "(string \<times> string \<times> nat) list \<Rightarrow> string \<Rightarrow> nat \<Rightarrow> doc \<Rightarrow> bool" where
  "ttl_due ixs coll now d =
     (case expireAt d of
        None \<Rightarrow> False
      | Some t \<Rightarrow> list_ex (\<lambda>(c, f, n). c = coll \<and> f = ''expireAt'' \<and> t + n \<le> now) ixs)"

definition sweep :: "nat \<Rightarrow> state \<Rightarrow> state" where
  "sweep now s =
     s\<lparr>clock := now,
       colls := (\<lambda>c. filter (\<lambda>d. \<not> ttl_due (indexes s) c now d) (colls s c))\<rparr>"

section \<open>Vocabulary of the properties\<close>

text \<open>The documents of a table: the collection its name is mapped to.\<close>

definition table_docs :: "state \<Rightarrow> string \<Rightarrow> doc list" where
  "table_docs s table = colls s (naming s table)"

text \<open>
  The Connected state of the driver: it holds a connection, that connection is open, and
  every handle in the registry belongs to the table it is registered for and is bound to
  an open connection. This is the state between \<open>connect()\<close> and \<open>disconnect()\<close>.
\<close>

definition Connected :: "state \<Rightarrow> bool" where
  "Connected s =
     (case conn s of
        None \<Rightarrow> False
      | Some c \<Rightarrow>
          c \<in> set (opened s) \<and>
          list_all (\<lambda>(t, h). h_name h = t \<and> h_conn h \<in> set (opened s)) (models s))"

text \<open>The collection of a table carries the expiring index the driver asks for.\<close>

definition ttl_indexed :: "state \<Rightarrow> string \<Rightarrow> bool" where
  "ttl_indexed s table = ((naming s table, ''expireAt'', 0) \<in> set (indexes s))"

text \<open>
  Concrete scenarios: a driver just constructed over an empty database, the same after
  \<open>connect()\<close>, after \<open>connect(); disconnect()\<close>, after three writes to table \<open>T\<close>,
  after \<open>connect(); prepare("t"); disconnect(); connect()\<close>, and the three-key state in
  which another writer has replaced the rows of \<open>T\<close> by one that never expires and one
  that expires at time 5.
\<close>

definition no_docs :: "string \<Rightarrow> doc list" where
  "no_docs c = []"

definition fresh :: state where
  "fresh = MongoDriver False id True no_docs 0"

definition live :: state where
  "live = snd (connect fresh)"

definition closed :: state where
  "closed = snd (disconnect live)"

definition three_keys :: state where
  "three_keys =
     snd (setRowByKey ''T'' ''group:1'' (JNum 3) False
    (snd (setRowByKey ''T'' ''user:2'' (JNum 2) False
    (snd (setRowByKey ''T'' ''user:1'' (JNum 1) False live)))))"

definition reconnected :: state where
  "reconnected = snd (connect (snd (disconnect (snd (prepare ''t'' live)))))"

definition with_expiry :: state where
  "with_expiry =
     three_keys\<lparr>colls := (colls three_keys)(''T'' :=
       [\<lparr>ID = ''user:1'', data = JNum 1, createdAt = 0, updatedAt = 0, expireAt = None\<rparr>,
        \<lparr>ID = ''session:42'', data = JNum 2, createdAt = 1, updatedAt = 1,
          expireAt = Some 5\<rparr>])\<rparr>"

section \<open>Facts about the store operations on a collection\<close>

lemma matches_IDIs: "matches (IDIs k) = (\<lambda>d. ID d = k)"
  by (rule ext) simp

lemma matches_NoFilter: "matches NoFilter = (\<lambda>d. True)"
  by (rule ext) simp

lemma find_upsert_data:
  "\<exists>d. find (\<lambda>d. ID d = K) (upsert_data K V t ds) = Some d \<and> data d = V"
  by (induction ds) auto

lemma map_ID_upsert_data:
  "map ID (upsert_data K V t ds) = (if K \<in> set (map ID ds) then map ID ds else map ID ds @ [K])"
  by (induction ds) auto

text \<open>An upsert keeps the IDs of a collection distinct.\<close>

lemma distinct_upsert_data:
  "distinct (map ID ds) \<Longrightarrow> distinct (map ID (upsert_data K V t ds))"
  by (simp add: map_ID_upsert_data)

lemma filter_ID_absent: "K \<notin> ID ` set ds \<Longrightarrow> filter (\<lambda>d. ID d = K) ds = []"
  by (induction ds) auto

lemma filter_upsert_data:
  "distinct (map ID ds) \<Longrightarrow> map data (filter (\<lambda>d. ID d = K) (upsert_data K V t ds)) = [V]"
proof (induction ds)
  case Nil
  then show ?case by simp
next
  case (Cons d ds)
  show ?case
  proof (cases "ID d = K")
    case True
    with Cons.prems have "K \<notin> ID ` set ds"
      by auto
    then have "filter (\<lambda>d. ID d = K) ds = []"
      by (rule filter_ID_absent)
    with True show ?thesis by simp
  next
    case False
    with Cons show ?thesis by simp
  qed
qed

lemma distinct_filter_ID_le1:
  "distinct (map ID ds) \<Longrightarrow> length (filter (\<lambda>d. ID d = K) ds) \<le> 1"
proof (induction ds)
  case Nil
  then show ?case by simp
next
  case (Cons d ds)
  show ?case
  proof (cases "ID d = K")
    case True
    with Cons.prems have "K \<notin> ID ` set ds"
      by auto
    then have "filter (\<lambda>d. ID d = K) ds = []"
      by (rule filter_ID_absent)
    with True show ?thesis by simp
  next
    case False
    with Cons show ?thesis by simp
  qed
qed

lemma find_ID_None: "find (\<lambda>d. ID d = K) ds = None \<longleftrightarrow> K \<notin> ID ` set ds"
  by (auto simp: find_None_iff)

lemma find_Some_member: "find P xs = Some x \<Longrightarrow> P x \<and> x \<in> set xs"
  by (induction xs) (auto split: if_splits)

lemma find_ID_distinct:
  "distinct (map ID ds) \<Longrightarrow> d \<in> set ds \<Longrightarrow> find (\<lambda>x. ID x = ID d) ds = Some d"
  by (induction ds) auto

section \<open>What each operation does in the Connected state\<close>

lemmas action_defs = andThen_def ret_def throw_def issue_def coll_of_def checkConnection_def

lemmas driver_defs =
  MongoDriver_def connect_def disconnect_def prepare_def getModel_def modelSchema_def
  getAllRows_def getRowByKey_def getStartsWith_def setRowByKey_def deleteAllRows_def
  deleteRowByKey_def m_find_def m_findOne_def m_findOneAndUpdate_def m_deleteMany_def
  action_defs

lemmas demo_defs =
  no_docs_def fresh_def live_def closed_def three_keys_def reconnected_def with_expiry_def

lemma Connected_trace: "Connected (s\<lparr>trace := x\<rparr>) = Connected s"
  by (cases "conn s") (simp_all add: Connected_def)

lemma Connected_colls: "Connected (s\<lparr>colls := x\<rparr>) = Connected s"
  by (cases "conn s") (simp_all add: Connected_def)

lemma Connected_sweep: "Connected (sweep now s) = Connected s"
  by (cases "conn s") (simp_all add: Connected_def sweep_def)

lemma list_all_update:
  "list_all P al \<Longrightarrow> P (k, v) \<Longrightarrow> list_all P (AList.update k v al)"
  by (induction al) auto

text \<open>
  \<open>connect()\<close> on a reachable store leads to Connected, from a driver with an empty
  registry as well as from a Connected one.
\<close>

lemma Connected_connect:
  assumes "reachable s" and "models s = [] \<or> Connected s"
  shows "Connected (snd (connect s))"
  using assms
  by (auto simp: connect_def ret_def Connected_def list_all_iff split: option.splits)

text \<open>
  In the Connected state \<open>getModel\<close> returns a handle for the table on an open connection,
  creating and registering one when the table has none; the database is untouched and the
  driver stays Connected.
\<close>

lemma getModel_Connected:
  assumes "Connected s"
  obtains h s' where "getModel T s = (Inr (Some h), s')" "h_name h = T"
    "h_conn h \<in> set (opened s)" "Connected s'" "colls s' = colls s"
    "naming s' = naming s" "opened s' = opened s" "clock s' = clock s" "conn s' = conn s"
proof -
  from assms obtain c where c: "conn s = Some c" "c \<in> set (opened s)"
    and all: "list_all (\<lambda>(t, h). h_name h = t \<and> h_conn h \<in> set (opened s)) (models s)"
    by (auto simp: Connected_def split: option.splits)
  show thesis
  proof (cases "map_of (models s) T")
    case None
    let ?h = "\<lparr>h_conn = c, h_name = T\<rparr>"
    let ?s = "s\<lparr>trace := trace s @ [(c, CreateIndex (naming s T) ''expireAt'' 0)],
                 indexes := List.insert (naming s T, ''expireAt'', 0) (indexes s),
                 models := AList.update T ?h (models s)\<rparr>"
    have "getModel T s = (Inr (Some ?h), ?s)"
      using None c
      by (simp add: getModel_def prepare_def modelSchema_def checkConnection_def
          andThen_def ret_def throw_def update_conv')
    moreover have "Connected ?s"
      using c all by (simp add: Connected_def list_all_update)
    ultimately show thesis using c by (intro that[of ?h ?s]) simp_all
  next
    case (Some h)
    then have "(T, h) \<in> set (models s)" by (rule map_of_SomeD)
    with all have "h_name h = T" "h_conn h \<in> set (opened s)"
      by (auto simp: list_all_iff)
    moreover have "getModel T s = (Inr (Some h), s)"
      using Some c
      by (simp add: getModel_def prepare_def checkConnection_def andThen_def ret_def throw_def)
    ultimately show thesis using assms by (intro that[of h s]) simp_all
  qed
qed

lemma setRowByKey_Connected:
  assumes "Connected s"
  obtains s' where "setRowByKey T K V f s = (Inr V, s')" "Connected s'"
    "naming s' = naming s" "clock s' = clock s"
    "colls s' = (colls s)(naming s T := upsert_data K V (clock s) (colls s (naming s T)))"
proof -
  from assms obtain c where c: "conn s = Some c"
    by (auto simp: Connected_def split: option.splits)
  from getModel_Connected[OF assms, of T] obtain h s1 where
    g: "getModel T s = (Inr (Some h), s1)" and h: "h_name h = T" "h_conn h \<in> set (opened s)"
    and s1: "Connected s1" "colls s1 = colls s" "naming s1 = naming s" "opened s1 = opened s"
      "clock s1 = clock s" "conn s1 = conn s"
    by blast
  let ?s = "s1\<lparr>trace := trace s1 @ [(h_conn h, FindOneAndUpdate (naming s T) (IDIs K) V)],
               colls := (colls s)(naming s T := upsert_data K V (clock s) (colls s (naming s T)))\<rparr>"
  have "setRowByKey T K V f s = (Inr V, ?s)"
    using c g h s1 by (simp add: setRowByKey_def m_findOneAndUpdate_def action_defs)
  moreover have "Connected ?s"
    using s1(1) by (simp add: Connected_trace Connected_colls)
  ultimately show thesis using s1 by (intro that[of ?s]) simp_all
qed

lemma getRowByKey_Connected:
  assumes "Connected s"
  obtains s' where
    "getRowByKey T K s =
       (Inr (case find (\<lambda>d. ID d = K) (table_docs s T) of
               Some r \<Rightarrow> (data r, True) | None \<Rightarrow> (JNull, False)), s')"
    "Connected s'" "naming s' = naming s" "clock s' = clock s" "colls s' = colls s"
proof -
  from assms obtain c where c: "conn s = Some c"
    by (auto simp: Connected_def split: option.splits)
  from getModel_Connected[OF assms, of T] obtain h s1 where
    g: "getModel T s = (Inr (Some h), s1)" and h: "h_name h = T" "h_conn h \<in> set (opened s)"
    and s1: "Connected s1" "colls s1 = colls s" "naming s1 = naming s" "opened s1 = opened s"
      "clock s1 = clock s" "conn s1 = conn s"
    by blast
  let ?s = "s1\<lparr>trace := trace s1 @ [(h_conn h, FindOne (naming s T) (IDIs K))]\<rparr>"
  have "getRowByKey T K s =
       (Inr (case find (\<lambda>d. ID d = K) (table_docs s T) of
               Some r \<Rightarrow> (data r, True) | None \<Rightarrow> (JNull, False)), ?s)"
    using c g h s1
    by (simp add: getRowByKey_def m_findOne_def action_defs table_docs_def matches_IDIs)
  moreover have "Connected ?s"
    using s1(1) by (simp add: Connected_trace Connected_colls)
  ultimately show thesis using s1 by (intro that[of ?s]) simp_all
qed

lemma getAllRows_Connected:
  assumes "Connected s"
  obtains s' where
    "getAllRows T s = (Inr (map (\<lambda>row. (ID row, data row)) (table_docs s T)), s')"
    "Connected s'" "naming s' = naming s" "clock s' = clock s" "colls s' = colls s"
proof -
  from assms obtain c where c: "conn s = Some c"
    by (auto simp: Connected_def split: option.splits)
  from getModel_Connected[OF assms, of T] obtain h s1 where
    g: "getModel T s = (Inr (Some h), s1)" and h: "h_name h = T" "h_conn h \<in> set (opened s)"
    and s1: "Connected s1" "colls s1 = colls s" "naming s1 = naming s" "opened s1 = opened s"
      "clock s1 = clock s" "conn s1 = conn s"
    by blast
  let ?s = "s1\<lparr>trace := trace s1 @ [(h_conn h, Find (naming s T) NoFilter)]\<rparr>"
  have "getAllRows T s = (Inr (map (\<lambda>row. (ID row, data row)) (table_docs s T)), ?s)"
    using c g h s1
    by (simp add: getAllRows_def m_find_def action_defs table_docs_def matches_NoFilter)
  moreover have "Connected ?s"
    using s1(1) by (simp add: Connected_trace Connected_colls)
  ultimately show thesis using s1 by (intro that[of ?s]) simp_all
qed

text \<open>
  What \<open>getStartsWith\<close> returns in the Connected state: the rows whose \<open>ID\<close> is the text
  \<open>/^\<close>, the query, \<open>/\<close>.
\<close>

lemma getStartsWith_Connected:
  assumes "Connected s"
  shows "fst (getStartsWith T P s) =
    Inr (map (\<lambda>row. (ID row, data row))
          (filter (\<lambda>d. ID d = ''/^'' @ P @ ''/'') (table_docs s T)))"
proof -
  from assms obtain c where c: "conn s = Some c"
    by (auto simp: Connected_def split: option.splits)
  from getModel_Connected[OF assms, of T] obtain h s1 where
    g: "getModel T s = (Inr (Some h), s1)" and h: "h_name h = T" "h_conn h \<in> set (opened s)"
    and s1: "Connected s1" "colls s1 = colls s" "naming s1 = naming s" "opened s1 = opened s"
      "clock s1 = clock s" "conn s1 = conn s"
    by blast
  show ?thesis
    using c g h s1
    by (simp add: getStartsWith_def m_find_def action_defs table_docs_def matches_IDIs)
qed

lemma deleteMany_Connected:
  assumes "Connected s"
  obtains h s1 where
    "deleteAllRows T s = m_deleteMany h NoFilter s1"
    "deleteRowByKey T K s = m_deleteMany h (IDIs K) s1"
    "h_name h = T" "h_conn h \<in> set (opened s1)"
    "Connected s1" "naming s1 = naming s" "clock s1 = clock s" "colls s1 = colls s"
proof -
  from assms obtain c where c: "conn s = Some c"
    by (auto simp: Connected_def split: option.splits)
  from getModel_Connected[OF assms, of T] obtain h s1 where
    g: "getModel T s = (Inr (Some h), s1)" and h: "h_name h = T" "h_conn h \<in> set (opened s)"
    and s1: "Connected s1" "colls s1 = colls s" "naming s1 = naming s" "opened s1 = opened s"
      "clock s1 = clock s" "conn s1 = conn s"
    by blast
  have "deleteAllRows T s = m_deleteMany h NoFilter s1"
    "deleteRowByKey T K s = m_deleteMany h (IDIs K) s1"
    using c g by (simp_all add: deleteAllRows_def deleteRowByKey_def action_defs)
  then show thesis using h s1 by (intro that[of h s1]) simp_all
qed

lemma m_deleteMany_open:
  assumes "h_conn h \<in> set (opened s)" "Connected s"
  obtains s' where
    "m_deleteMany h sel s = (Inr (length (filter (matches sel) (colls s (coll_of s h)))), s')"
    "Connected s'" "naming s' = naming s" "clock s' = clock s"
    "colls s' = (colls s)(coll_of s h := filter (\<lambda>d. \<not> matches sel d) (colls s (coll_of s h)))"
proof -
  let ?s = "s\<lparr>trace := trace s @ [(h_conn h, DeleteMany (coll_of s h) sel)],
              colls := (colls s)(coll_of s h := filter (\<lambda>d. \<not> matches sel d) (colls s (coll_of s h)))\<rparr>"
  have "m_deleteMany h sel s = (Inr (length (filter (matches sel) (colls s (coll_of s h)))), ?s)"
    using assms(1) by (simp add: m_deleteMany_def action_defs)
  moreover have "Connected ?s"
    using assms(2) by (simp add: Connected_trace Connected_colls)
  ultimately show thesis by (intro that[of ?s]) simp_all
qed

lemma deleteRowByKey_Connected:
  assumes "Connected s"
  obtains s' where
    "deleteRowByKey T K s = (Inr (length (filter (\<lambda>d. ID d = K) (table_docs s T))), s')"
    "Connected s'" "naming s' = naming s" "clock s' = clock s"
    "colls s' = (colls s)(naming s T := filter (\<lambda>d. ID d \<noteq> K) (table_docs s T))"
proof -
  from deleteMany_Connected[OF assms, of T K] obtain h s1 where
    d: "deleteRowByKey T K s = m_deleteMany h (IDIs K) s1"
    and h: "h_name h = T" "h_conn h \<in> set (opened s1)"
    and s1: "Connected s1" "naming s1 = naming s" "clock s1 = clock s" "colls s1 = colls s"
    by blast
  from m_deleteMany_open[OF h(2) s1(1), of "IDIs K"] obtain s' where
    "m_deleteMany h (IDIs K) s1 =
       (Inr (length (filter (matches (IDIs K)) (colls s1 (coll_of s1 h)))), s')"
    "Connected s'" "naming s' = naming s1" "clock s' = clock s1"
    "colls s' = (colls s1)(coll_of s1 h :=
        filter (\<lambda>d. \<not> matches (IDIs K) d) (colls s1 (coll_of s1 h)))"
    by blast
  with d h s1 show thesis
    by (intro that[of s']) (simp_all add: coll_of_def table_docs_def matches_IDIs)
qed

lemma deleteAllRows_Connected:
  assumes "Connected s"
  obtains s' where
    "deleteAllRows T s = (Inr (length (table_docs s T)), s')"
    "Connected s'" "naming s' = naming s" "clock s' = clock s"
    "colls s' = (colls s)(naming s T := [])"
proof -
  from deleteMany_Connected[OF assms, of T undefined] obtain h s1 where
    d: "deleteAllRows T s = m_deleteMany h NoFilter s1"
    and h: "h_name h = T" "h_conn h \<in> set (opened s1)"
    and s1: "Connected s1" "naming s1 = naming s" "clock s1 = clock s" "colls s1 = colls s"
    by blast
  from m_deleteMany_open[OF h(2) s1(1), of NoFilter] obtain s' where
    "m_deleteMany h NoFilter s1 =
       (Inr (length (filter (matches NoFilter) (colls s1 (coll_of s1 h)))), s')"
    "Connected s'" "naming s' = naming s1" "clock s' = clock s1"
    "colls s' = (colls s1)(coll_of s1 h :=
        filter (\<lambda>d. \<not> matches NoFilter d) (colls s1 (coll_of s1 h)))"
    by blast
  with d h s1 show thesis
    by (intro that[of s']) (simp_all add: coll_of_def table_docs_def)
qed

section \<open>The scenarios\<close>

lemma Connected_live: "Connected live"
  by (simp add: Connected_def demo_defs driver_defs)

lemma Connected_three_keys: "Connected three_keys"
  by (simp add: Connected_def demo_defs driver_defs)

lemma three_keys_table: "table_docs three_keys ''T'' =
  [\<lparr>ID = ''user:1'', data = JNum 1, createdAt = 0, updatedAt = 0, expireAt = None\<rparr>,
   \<lparr>ID = ''user:2'', data = JNum 2, createdAt = 0, updatedAt = 0, expireAt = None\<rparr>,
   \<lparr>ID = ''group:1'', data = JNum 3, createdAt = 0, updatedAt = 0, expireAt = None\<rparr>]"
  by (simp add: table_docs_def demo_defs driver_defs)

lemma unique_three_keys: "distinct (map ID (table_docs three_keys ''T''))"
  by (simp add: three_keys_table)

section \<open>The not-connected guard\<close>

text \<open>
  On a driver that never connected (\<open>conn\<close> unset) each of the seven data operations
  throws the not-connected error and leaves the whole state, the trace of store requests
  included, as it was.
\<close>

lemma not_connected_guard:
  assumes "conn s = None"
  shows "prepare T s = (Inl NotConnected, s)"
    and "getAllRows T s = (Inl NotConnected, s)"
    and "getRowByKey T K s = (Inl NotConnected, s)"
    and "getStartsWith T P s = (Inl NotConnected, s)"
    and "setRowByKey T K V f s = (Inl NotConnected, s)"
    and "deleteAllRows T s = (Inl NotConnected, s)"
    and "deleteRowByKey T K s = (Inl NotConnected, s)"
  using assms by (simp_all add: driver_defs)

text \<open>\<open>disconnect()\<close> closes the connection and leaves the field \<open>conn\<close> as it is.\<close>

lemma disconnect_keeps_conn: "conn (snd (disconnect s)) = conn s"
  by (simp add: disconnect_def ret_def split: option.splits)

text \<open>
  Claim C1 (the not-connected guard in the Disconnected state), evaluated after
  \<open>connect(); disconnect()\<close>: the driver still holds its connection number 0, which is no
  longer open, and nothing has been sent to the store yet. \<open>checkConnection\<close> passes;
  \<open>getAllRows("t")\<close> goes on to request the index and to send \<open>find\<close> on the closed
  connection, and fails with the store client's error, not with the not-connected error.
\<close>

theorem guard_passes_after_disconnect:
  "conn closed = Some 0 \<and> opened closed = [] \<and> trace closed = []
   \<and> fst (checkConnection closed) = Inr ()
   \<and> fst (getAllRows ''t'' closed) = Inl BackendQueryError
   \<and> trace (snd (getAllRows ''t'' closed)) =
       [(0, CreateIndex ''t'' ''expireAt'' 0), (0, Find ''t'' NoFilter)]"
  by (simp add: demo_defs driver_defs)

section \<open>Prefix search\<close>

text \<open>
  Claim C2 (\<open>getStartsWith\<close> returns exactly the entries whose id starts with the prefix),
  evaluated on a table holding the keys \<open>user:1\<close>, \<open>user:2\<close> and \<open>group:1\<close>:
  \<open>getStartsWith(T, "user:")\<close> returns no entry at all, and once a row with the key
  \<open>/^user:/\<close> is written it returns that row, whose id does not start with \<open>user:\<close>.
\<close>

theorem getStartsWith_exact_match:
  "fst (getAllRows ''T'' three_keys) =
      Inr [(''user:1'', JNum 1), (''user:2'', JNum 2), (''group:1'', JNum 3)]
   \<and> fst (getStartsWith ''T'' ''user:'' three_keys) = Inr []
   \<and> fst (getStartsWith ''T'' ''user:''
         (snd (setRowByKey ''T'' ''/^user:/'' (JNum 4) False three_keys))) =
      Inr [(''/^user:/'', JNum 4)]"
  by (simp add: demo_defs driver_defs)

section \<open>Reading, writing and deleting rows\<close>

text \<open>
  Claim C3: for a connected driver, any table \<open>T\<close>, key \<open>K\<close>, value \<open>V\<close> and either flag,
  \<open>getRowByKey(T, K)\<close> right after \<open>setRowByKey(T, K, V, flag)\<close> returns \<open>(V, true)\<close>.
\<close>

theorem set_then_get:
  assumes "Connected s"
  shows "fst (getRowByKey T K (snd (setRowByKey T K V f s))) = Inr (V, True)"
proof -
  from setRowByKey_Connected[OF assms, of T K V f] obtain s1 where
    s1: "setRowByKey T K V f s = (Inr V, s1)" "Connected s1" "naming s1 = naming s"
      "colls s1 = (colls s)(naming s T := upsert_data K V (clock s) (colls s (naming s T)))"
    by blast
  from getRowByKey_Connected[OF s1(2), of T K] obtain s2 where
    g: "getRowByKey T K s1 =
       (Inr (case find (\<lambda>d. ID d = K) (table_docs s1 T) of
               Some r \<Rightarrow> (data r, True) | None \<Rightarrow> (JNull, False)), s2)"
    by blast
  have "table_docs s1 T = upsert_data K V (clock s) (colls s (naming s T))"
    using s1 by (simp add: table_docs_def)
  moreover obtain d where
    "find (\<lambda>d. ID d = K) (upsert_data K V (clock s) (colls s (naming s T))) = Some d" "data d = V"
    using find_upsert_data by blast
  ultimately show ?thesis using s1(1) g by simp
qed

theorem set_then_get_witness:
  "Connected live \<and>
   fst (getRowByKey ''cache'' ''session:42''
         (snd (setRowByKey ''cache'' ''session:42'' (JObj [(''uid'', JNum 7)]) False live))) =
     Inr (JObj [(''uid'', JNum 7)], True)"
proof -
  have h: "Connected live" by (rule Connected_live)
  show ?thesis
    using h set_then_get[OF h, of "''cache''" "''session:42''" "JObj [(''uid'', JNum 7)]" False]
    by simp
qed

text \<open>
  Claim C4: for a connected driver and a table whose IDs are unique (the schema's
  \<open>unique: true\<close> on \<open>ID\<close>), writing \<open>V1\<close> and then \<open>V2\<close> under the same key \<open>K\<close>, with any
  flags, leaves exactly one document with \<open>ID = K\<close> in the table; its data is \<open>V2\<close>, and
  the IDs of the table are still unique.
\<close>

theorem upsert_no_duplicate:
  assumes "Connected s" and "distinct (map ID (table_docs s T))"
  shows "map data (filter (\<lambda>d. ID d = K)
            (table_docs (snd (setRowByKey T K V2 f2 (snd (setRowByKey T K V1 f1 s)))) T)) = [V2]
       \<and> distinct (map ID
            (table_docs (snd (setRowByKey T K V2 f2 (snd (setRowByKey T K V1 f1 s)))) T))"
proof -
  from setRowByKey_Connected[OF assms(1), of T K V1 f1] obtain s1 where
    s1: "setRowByKey T K V1 f1 s = (Inr V1, s1)" "Connected s1" "naming s1 = naming s"
      "colls s1 = (colls s)(naming s T := upsert_data K V1 (clock s) (colls s (naming s T)))"
    by blast
  from setRowByKey_Connected[OF s1(2), of T K V2 f2] obtain s2 where
    s2: "setRowByKey T K V2 f2 s1 = (Inr V2, s2)" "naming s2 = naming s1"
      "colls s2 = (colls s1)(naming s1 T := upsert_data K V2 (clock s1) (colls s1 (naming s1 T)))"
    by blast
  have d1: "distinct (map ID (table_docs s1 T))"
    using assms(2) s1 by (simp add: table_docs_def distinct_upsert_data)
  have t2: "table_docs s2 T = upsert_data K V2 (clock s1) (table_docs s1 T)"
    using s2 by (simp add: table_docs_def)
  have "map data (filter (\<lambda>d. ID d = K) (table_docs s2 T)) = [V2]"
    unfolding t2 using d1 by (rule filter_upsert_data)
  moreover have "distinct (map ID (table_docs s2 T))"
    unfolding t2 using d1 by (rule distinct_upsert_data)
  ultimately show ?thesis using s1(1) s2(1) by simp
qed

theorem upsert_no_duplicate_witness:
  "Connected three_keys \<and> distinct (map ID (table_docs three_keys ''T'')) \<and>
   map data (filter (\<lambda>d. ID d = ''user:1'')
     (table_docs (snd (setRowByKey ''T'' ''user:1'' (JBool True) False
                  (snd (setRowByKey ''T'' ''user:1'' (JStr ''x'') False three_keys)))) ''T''))
     = [JBool True]"
proof -
  have h1: "Connected three_keys" by (rule Connected_three_keys)
  have h2: "distinct (map ID (table_docs three_keys ''T''))" by (rule unique_three_keys)
  show ?thesis
    using h1 h2
      upsert_no_duplicate[OF h1 h2, of "''user:1''" "JBool True" False "JStr ''x''" False]
    by simp
qed

text \<open>
  Claim C5: for a connected driver and a table whose IDs are unique,
  \<open>deleteRowByKey(T, K)\<close> returns 0 or 1; it returns 0, without failing, when no entry has
  the key \<open>K\<close>; right after \<open>setRowByKey(T, K, V, flag)\<close> it returns 1, and
  \<open>getRowByKey(T, K)\<close> after that returns \<open>(null, false)\<close>.
\<close>

theorem deleteRowByKey_count:
  assumes "Connected s" and "distinct (map ID (table_docs s T))"
  shows "(fst (deleteRowByKey T K s) = Inr 0 \<or> fst (deleteRowByKey T K s) = Inr 1)
       \<and> (K \<notin> ID ` set (table_docs s T) \<longrightarrow> fst (deleteRowByKey T K s) = Inr 0)
       \<and> fst (deleteRowByKey T K (snd (setRowByKey T K V f s))) = Inr 1
       \<and> fst (getRowByKey T K
               (snd (deleteRowByKey T K (snd (setRowByKey T K V f s))))) = Inr (JNull, False)"
proof -
  from deleteRowByKey_Connected[OF assms(1), of T K] obtain s0 where
    r0: "deleteRowByKey T K s = (Inr (length (filter (\<lambda>d. ID d = K) (table_docs s T))), s0)"
    by blast
  have le: "length (filter (\<lambda>d. ID d = K) (table_docs s T)) \<le> 1"
    using assms(2) by (rule distinct_filter_ID_le1)
  have a: "fst (deleteRowByKey T K s) = Inr 0 \<or> fst (deleteRowByKey T K s) = Inr 1"
    using r0 le by (auto simp: le_Suc_eq)
  have b: "K \<notin> ID ` set (table_docs s T) \<longrightarrow> fst (deleteRowByKey T K s) = Inr 0"
    using r0 by (auto simp: filter_empty_conv)
  from setRowByKey_Connected[OF assms(1), of T K V f] obtain s1 where
    s1: "setRowByKey T K V f s = (Inr V, s1)" "Connected s1" "naming s1 = naming s"
      "colls s1 = (colls s)(naming s T := upsert_data K V (clock s) (colls s (naming s T)))"
    by blast
  have t1: "table_docs s1 T = upsert_data K V (clock s) (table_docs s T)"
    using s1 by (simp add: table_docs_def)
  from deleteRowByKey_Connected[OF s1(2), of T K] obtain s2 where
    s2: "deleteRowByKey T K s1 = (Inr (length (filter (\<lambda>d. ID d = K) (table_docs s1 T))), s2)"
      "Connected s2" "naming s2 = naming s1"
      "colls s2 = (colls s1)(naming s1 T := filter (\<lambda>d. ID d \<noteq> K) (table_docs s1 T))"
    by blast
  have "length (map data (filter (\<lambda>d. ID d = K) (table_docs s1 T))) = 1"
    unfolding t1 using filter_upsert_data[OF assms(2), of K V "clock s"] by simp
  then have c: "fst (deleteRowByKey T K s1) = Inr 1"
    using s2(1) by simp
  from getRowByKey_Connected[OF s2(2), of T K] obtain s3 where
    g: "getRowByKey T K s2 =
       (Inr (case find (\<lambda>d. ID d = K) (table_docs s2 T) of
               Some r \<Rightarrow> (data r, True) | None \<Rightarrow> (JNull, False)), s3)"
    by blast
  have "table_docs s2 T = filter (\<lambda>d. ID d \<noteq> K) (table_docs s1 T)"
    using s2 by (simp add: table_docs_def)
  then have "find (\<lambda>d. ID d = K) (table_docs s2 T) = None"
    by (simp add: find_None_iff)
  then have d: "fst (getRowByKey T K s2) = Inr (JNull, False)"
    using g by simp
  show ?thesis using a b c d s1(1) s2(1) by simp
qed

theorem deleteRowByKey_count_witness:
  "Connected three_keys \<and> distinct (map ID (table_docs three_keys ''T'')) \<and>
   fst (deleteRowByKey ''T'' ''nobody'' three_keys) = Inr 0 \<and>
   fst (deleteRowByKey ''T'' ''user:2''
         (snd (setRowByKey ''T'' ''user:2'' JNull False three_keys))) = Inr 1 \<and>
   fst (getRowByKey ''T'' ''user:2''
         (snd (deleteRowByKey ''T'' ''user:2''
           (snd (setRowByKey ''T'' ''user:2'' JNull False three_keys))))) = Inr (JNull, False)"
proof -
  have h1: "Connected three_keys" by (rule Connected_three_keys)
  have h2: "distinct (map ID (table_docs three_keys ''T''))" by (rule unique_three_keys)
  have h3: "''nobody'' \<notin> ID ` set (table_docs three_keys ''T'')"
    by (simp add: three_keys_table)
  show ?thesis
    using h1 h2 h3
      deleteRowByKey_count[OF h1 h2, of "''nobody''" JNull False]
      deleteRowByKey_count[OF h1 h2, of "''user:2''" JNull False]
    by simp
qed

text \<open>
  Claim C6: for a connected driver and a table \<open>T\<close> holding \<open>N\<close> entries, \<open>deleteAllRows(T)\<close>
  returns \<open>N\<close> and \<open>getAllRows(T)\<close> after it returns the empty sequence; for a table with
  no entries (absent or empty) the count returned is 0, and no error is raised.
\<close>

theorem deleteAllRows_count:
  assumes "Connected s"
  shows "fst (deleteAllRows T s) = Inr (length (table_docs s T))
       \<and> fst (getAllRows T (snd (deleteAllRows T s))) = Inr []
       \<and> (table_docs s T = [] \<longrightarrow> fst (deleteAllRows T s) = Inr 0)"
proof -
  from deleteAllRows_Connected[OF assms, of T] obtain s1 where
    s1: "deleteAllRows T s = (Inr (length (table_docs s T)), s1)" "Connected s1"
      "naming s1 = naming s" "colls s1 = (colls s)(naming s T := [])"
    by blast
  from getAllRows_Connected[OF s1(2), of T] obtain s2 where
    "getAllRows T s1 = (Inr (map (\<lambda>row. (ID row, data row)) (table_docs s1 T)), s2)"
    by blast
  moreover have "table_docs s1 T = []"
    using s1 by (simp add: table_docs_def)
  ultimately show ?thesis using s1(1) by simp
qed

theorem deleteAllRows_count_witness:
  "Connected three_keys \<and>
   fst (deleteAllRows ''T'' three_keys) = Inr 3 \<and>
   fst (getAllRows ''T'' (snd (deleteAllRows ''T'' three_keys))) = Inr [] \<and>
   fst (deleteAllRows ''none'' three_keys) = Inr 0"
proof -
  have h: "Connected three_keys" by (rule Connected_three_keys)
  have n: "length (table_docs three_keys ''T'') = 3" by (simp add: three_keys_table)
  have e: "table_docs three_keys ''none'' = []"
    by (simp add: table_docs_def demo_defs driver_defs)
  show ?thesis
    using h n e deleteAllRows_count[OF h, of "''T''"] deleteAllRows_count[OF h, of "''none''"]
    by simp
qed

text \<open>
  Claim C7: for a connected driver, \<open>getRowByKey(T, K)\<close> never fails; it returns
  \<open>(null, false)\<close> exactly when no document of \<open>T\<close> has \<open>ID = K\<close>; when there is one it
  returns \<open>(data, true)\<close> with the data of the first such document, which, IDs being
  unique, is the document with that key; and it returns \<open>(null, true)\<close> only if a document
  with \<open>ID = K\<close> stores \<open>null\<close>.
\<close>

theorem getRowByKey_found:
  assumes "Connected s"
  shows "(fst (getRowByKey T K s) = Inr (JNull, False) \<longleftrightarrow> K \<notin> ID ` set (table_docs s T))
       \<and> (\<forall>d. find (\<lambda>x. ID x = K) (table_docs s T) = Some d \<longrightarrow>
              fst (getRowByKey T K s) = Inr (data d, True))
       \<and> (distinct (map ID (table_docs s T)) \<longrightarrow>
            (\<forall>d \<in> set (table_docs s T). ID d = K \<longrightarrow>
               fst (getRowByKey T K s) = Inr (data d, True)))
       \<and> (fst (getRowByKey T K s) = Inr (JNull, True) \<longrightarrow>
            (\<exists>d \<in> set (table_docs s T). ID d = K \<and> data d = JNull))"
proof -
  from getRowByKey_Connected[OF assms, of T K] obtain s1 where
    "getRowByKey T K s =
       (Inr (case find (\<lambda>d. ID d = K) (table_docs s T) of
               Some r \<Rightarrow> (data r, True) | None \<Rightarrow> (JNull, False)), s1)"
    by blast
  then have r: "fst (getRowByKey T K s) =
       Inr (case find (\<lambda>d. ID d = K) (table_docs s T) of
               Some r \<Rightarrow> (data r, True) | None \<Rightarrow> (JNull, False))"
    by simp
  have a: "fst (getRowByKey T K s) = Inr (JNull, False) \<longleftrightarrow> K \<notin> ID ` set (table_docs s T)"
    unfolding r find_ID_None[symmetric] by (simp split: option.splits)
  have b: "\<forall>d. find (\<lambda>x. ID x = K) (table_docs s T) = Some d \<longrightarrow>
              fst (getRowByKey T K s) = Inr (data d, True)"
    unfolding r by simp
  have c: "distinct (map ID (table_docs s T)) \<longrightarrow>
            (\<forall>d \<in> set (table_docs s T). ID d = K \<longrightarrow>
               fst (getRowByKey T K s) = Inr (data d, True))"
    using b find_ID_distinct by blast
  have d: "fst (getRowByKey T K s) = Inr (JNull, True) \<longrightarrow>
            (\<exists>d \<in> set (table_docs s T). ID d = K \<and> data d = JNull)"
    unfolding r by (auto split: option.splits dest: find_Some_member)
  show ?thesis using a b c d by blast
qed

theorem getRowByKey_found_witness:
  "Connected three_keys \<and>
   fst (getRowByKey ''T'' ''user:2'' three_keys) = Inr (JNum 2, True) \<and>
   fst (getRowByKey ''T'' ''nobody'' three_keys) = Inr (JNull, False)"
proof -
  have h: "Connected three_keys" by (rule Connected_three_keys)
  have f: "find (\<lambda>x. ID x = ''user:2'') (table_docs three_keys ''T'') =
      Some \<lparr>ID = ''user:2'', data = JNum 2, createdAt = 0, updatedAt = 0, expireAt = None\<rparr>"
    by (simp add: three_keys_table)
  have a: "''nobody'' \<notin> ID ` set (table_docs three_keys ''T'')"
    by (simp add: three_keys_table)
  show ?thesis
    using h f a getRowByKey_found[OF h, of "''T''" "''user:2''"]
      getRowByKey_found[OF h, of "''T''" "''nobody''"]
    by simp
qed

text \<open>
  Claim C10: for a connected driver, \<open>setRowByKey(T, K, V, flag)\<close> returns the value \<open>V\<close>
  it was given, whatever the flag and whatever the table held before.
\<close>

theorem setRowByKey_returns_value:
  assumes "Connected s"
  shows "fst (setRowByKey T K V f s) = Inr V"
  using setRowByKey_Connected[OF assms, of T K V f] by force

theorem setRowByKey_returns_value_witness:
  "Connected three_keys \<and>
   fst (setRowByKey ''T'' ''user:1'' (JStr ''x'') True three_keys) = Inr (JStr ''x'')"
proof -
  have h: "Connected three_keys" by (rule Connected_three_keys)
  show ?thesis
    using h setRowByKey_returns_value[OF h, of "''T''" "''user:1''" "JStr ''x''" True]
    by simp
qed

section \<open>Table handles across a reconnect\<close>

text \<open>\<open>disconnect()\<close> leaves the registry of table handles as it is.\<close>

lemma disconnect_keeps_models: "models (snd (disconnect s)) = models s"
  by (simp add: disconnect_def ret_def split: option.splits)

text \<open>
  Claim C9 (after \<open>disconnect()\<close> and \<open>connect()\<close> the operations on \<open>T\<close> use a freshly
  created handle bound to the new connection, not the stale one), evaluated after
  \<open>connect(); prepare("t"); disconnect(); connect()\<close>: the driver's connection is number 1
  and it is open, but the handle \<open>getModel("t")\<close> returns is the one bound to connection 0,
  not a handle on connection 1; \<open>getAllRows("t")\<close> sends its \<open>find\<close> on connection 0 and
  is rejected, and so are the reads and writes by key. A table first used after the
  reconnect, \<open>u\<close>, does get a handle on connection 1 and works.
\<close>

theorem stale_handle_after_reconnect:
  "conn reconnected = Some 1 \<and> opened reconnected = [1]
   \<and> fst (getModel ''t'' reconnected) = Inr (Some \<lparr>h_conn = 0, h_name = ''t''\<rparr>)
   \<and> fst (getModel ''t'' reconnected) \<noteq> Inr (Some \<lparr>h_conn = 1, h_name = ''t''\<rparr>)
   \<and> fst (getAllRows ''t'' reconnected) = Inl BackendQueryError
   \<and> trace (snd (getAllRows ''t'' reconnected)) =
       [(0, CreateIndex ''t'' ''expireAt'' 0), (0, Find ''t'' NoFilter)]
   \<and> fst (setRowByKey ''t'' ''k'' (JNum 1) False reconnected) = Inl BackendQueryError
   \<and> fst (getRowByKey ''t'' ''k'' reconnected) = Inl BackendQueryError
   \<and> fst (getModel ''u'' reconnected) = Inr (Some \<lparr>h_conn = 1, h_name = ''u''\<rparr>)
   \<and> fst (getAllRows ''u'' reconnected) = Inr []"
  by (simp add: demo_defs driver_defs)

section \<open>Expiry\<close>

lemma table_docs_sweep:
  "table_docs (sweep now s) T =
     filter (\<lambda>d. \<not> ttl_due (indexes s) (naming s T) now d) (table_docs s T)"
  by (simp add: table_docs_def sweep_def)

lemma ttl_due_indexed:
  "ttl_indexed s T \<Longrightarrow> expireAt d = Some t \<Longrightarrow> t \<le> now \<Longrightarrow>
     ttl_due (indexes s) (naming s T) now d"
  by (force simp: ttl_indexed_def ttl_due_def list_ex_iff)

lemma find_ID_filtered:
  assumes "distinct (map ID ds)" and "d \<in> set ds" and "\<not> Q d"
  shows "find (\<lambda>x. ID x = ID d) (filter Q ds) = None"
proof -
  from assms(1) have "inj_on ID (set ds)"
    by (simp add: distinct_map)
  with assms(2) have "\<And>x. x \<in> set ds \<Longrightarrow> ID x = ID d \<Longrightarrow> x = d"
    by (auto dest: inj_onD)
  with assms(3) show ?thesis
    by (auto simp: find_None_iff)
qed

text \<open>
  Creating the handle of a table: in the Connected state \<open>prepare\<close> on a table without a
  handle sends exactly one request, the expiring index on \<open>expireAt\<close> with offset 0, and
  the store then holds that index.
\<close>

lemma prepare_new_table:
  assumes "Connected s" and "map_of (models s) T = None"
  shows "\<exists>c. conn s = Some c \<and>
           trace (snd (prepare T s)) = trace s @ [(c, CreateIndex (naming s T) ''expireAt'' 0)]"
    and "ttl_indexed (snd (prepare T s)) T"
proof -
  from assms(1) obtain c where c: "conn s = Some c" "c \<in> set (opened s)"
    by (auto simp: Connected_def split: option.splits)
  then show "\<exists>c. conn s = Some c \<and>
           trace (snd (prepare T s)) = trace s @ [(c, CreateIndex (naming s T) ''expireAt'' 0)]"
    using assms(2)
    by (simp add: prepare_def modelSchema_def checkConnection_def andThen_def ret_def throw_def)
  show "ttl_indexed (snd (prepare T s)) T"
    using c assms(2)
    by (simp add: ttl_indexed_def prepare_def modelSchema_def checkConnection_def andThen_def
        ret_def throw_def)
qed

lemma prepare_known_table:
  assumes "conn s = Some c" and "map_of (models s) T = Some h"
  shows "prepare T s = (Inr (), s)"
  using assms by (simp add: prepare_def checkConnection_def andThen_def ret_def throw_def)

text \<open>
  Claim C8: for a connected driver,
  \<^item> creating the handle of a table (\<open>prepare\<close> on a table that has none) sends the store
    one request, the expiring index on \<open>expireAt\<close> with a zero-second offset, after which
    the collection carries that index; for a table that has a handle \<open>prepare\<close> sends
    nothing and changes nothing;
  \<^item> the driver does no expiry of its own: \<open>getAllRows\<close> returns every stored row,
    expired or not, and neither read changes the database;
  \<^item> after a pass of the store's monitor at time \<open>now\<close>, \<open>getAllRows\<close> returns exactly
    the rows that were not due, and when the collection carries the index, every entry
    whose \<open>expireAt\<close> is a time \<open>t \<le> now\<close> is gone from the table: \<open>getAllRows\<close> has no
    row under its key and \<open>getRowByKey\<close> on its key returns \<open>(null, false)\<close> (keys being
    unique in the table).
\<close>

theorem ttl_eventual_removal:
  assumes "Connected s"
  shows "(map_of (models s) T = None \<longrightarrow>
            (\<exists>c. conn s = Some c \<and>
               trace (snd (prepare T s)) =
                 trace s @ [(c, CreateIndex (naming s T) ''expireAt'' 0)])
            \<and> ttl_indexed (snd (prepare T s)) T)
       \<and> (map_of (models s) T \<noteq> None \<longrightarrow> prepare T s = (Inr (), s))
       \<and> fst (getAllRows T s) = Inr (map (\<lambda>r. (ID r, data r)) (table_docs s T))
       \<and> colls (snd (getAllRows T s)) = colls s
       \<and> colls (snd (getRowByKey T K s)) = colls s
       \<and> fst (getAllRows T (sweep now s)) =
           Inr (map (\<lambda>r. (ID r, data r))
                 (filter (\<lambda>d. \<not> ttl_due (indexes s) (naming s T) now d) (table_docs s T)))
       \<and> (ttl_indexed s T \<longrightarrow>
            (\<forall>d \<in> set (table_docs s T). \<forall>t. expireAt d = Some t \<and> t \<le> now \<longrightarrow>
               d \<notin> set (table_docs (sweep now s) T)
               \<and> (distinct (map ID (table_docs s T)) \<longrightarrow>
                    (\<exists>rows. fst (getAllRows T (sweep now s)) = Inr rows
                        \<and> ID d \<notin> fst ` set rows)
                    \<and> fst (getRowByKey T (ID d) (sweep now s)) = Inr (JNull, False))))"
proof -
  let ?due = "ttl_due (indexes s) (naming s T) now"
  let ?left = "filter (\<lambda>d. \<not> ?due d) (table_docs s T)"
  have cs: "Connected (sweep now s)"
    using assms by (simp add: Connected_sweep)
  from assms obtain c where c: "conn s = Some c"
    by (auto simp: Connected_def split: option.splits)
  have p1: "map_of (models s) T = None \<longrightarrow>
            (\<exists>c. conn s = Some c \<and>
               trace (snd (prepare T s)) =
                 trace s @ [(c, CreateIndex (naming s T) ''expireAt'' 0)])
            \<and> ttl_indexed (snd (prepare T s)) T"
    using prepare_new_table[OF assms] by blast
  have p2: "map_of (models s) T \<noteq> None \<longrightarrow> prepare T s = (Inr (), s)"
    using prepare_known_table[OF c] by blast
  from getAllRows_Connected[OF assms, of T] obtain s1 where
    "getAllRows T s = (Inr (map (\<lambda>row. (ID row, data row)) (table_docs s T)), s1)"
    "colls s1 = colls s"
    by blast
  then have p3: "fst (getAllRows T s) = Inr (map (\<lambda>r. (ID r, data r)) (table_docs s T))"
    and p4: "colls (snd (getAllRows T s)) = colls s"
    by simp_all
  from getRowByKey_Connected[OF assms, of T K] obtain s2 where
    "getRowByKey T K s =
       (Inr (case find (\<lambda>d. ID d = K) (table_docs s T) of
               Some r \<Rightarrow> (data r, True) | None \<Rightarrow> (JNull, False)), s2)"
    "colls s2 = colls s"
    by blast
  then have p5: "colls (snd (getRowByKey T K s)) = colls s"
    by simp
  from getAllRows_Connected[OF cs, of T] obtain s3 where
    "getAllRows T (sweep now s) =
       (Inr (map (\<lambda>row. (ID row, data row)) (table_docs (sweep now s) T)), s3)"
    by blast
  then have p6: "fst (getAllRows T (sweep now s)) = Inr (map (\<lambda>r. (ID r, data r)) ?left)"
    by (simp add: table_docs_sweep)
  have p7: "ttl_indexed s T \<longrightarrow>
            (\<forall>d \<in> set (table_docs s T). \<forall>t. expireAt d = Some t \<and> t \<le> now \<longrightarrow>
               d \<notin> set (table_docs (sweep now s) T)
               \<and> (distinct (map ID (table_docs s T)) \<longrightarrow>
                    (\<exists>rows. fst (getAllRows T (sweep now s)) = Inr rows
                        \<and> ID d \<notin> fst ` set rows)
                    \<and> fst (getRowByKey T (ID d) (sweep now s)) = Inr (JNull, False)))"
  proof (intro impI ballI allI)
    fix d t
    assume ix: "ttl_indexed s T" and d: "d \<in> set (table_docs s T)"
      and e: "expireAt d = Some t \<and> t \<le> now"
    from ix e have due: "?due d"
      by (auto intro: ttl_due_indexed)
    then have gone: "d \<notin> set (table_docs (sweep now s) T)"
      by (simp add: table_docs_sweep)
    have uniq: "distinct (map ID (table_docs s T)) \<longrightarrow>
                    (\<exists>rows. fst (getAllRows T (sweep now s)) = Inr rows
                        \<and> ID d \<notin> fst ` set rows)
                    \<and> fst (getRowByKey T (ID d) (sweep now s)) = Inr (JNull, False)"
    proof
      assume dist: "distinct (map ID (table_docs s T))"
      have none: "find (\<lambda>x. ID x = ID d) ?left = None"
        using dist d due by (intro find_ID_filtered) simp_all
      then have "ID d \<notin> ID ` set ?left"
        by (simp add: find_ID_None)
      then have "ID d \<notin> fst ` set (map (\<lambda>r. (ID r, data r)) ?left)"
        by (simp add: image_image)
      with p6 have a: "\<exists>rows. fst (getAllRows T (sweep now s)) = Inr rows
                        \<and> ID d \<notin> fst ` set rows"
        by blast
      from getRowByKey_Connected[OF cs, of T "ID d"] obtain s4 where
        "getRowByKey T (ID d) (sweep now s) =
           (Inr (case find (\<lambda>x. ID x = ID d) (table_docs (sweep now s) T) of
               Some r \<Rightarrow> (data r, True) | None \<Rightarrow> (JNull, False)), s4)"
        by blast
      with none have "fst (getRowByKey T (ID d) (sweep now s)) = Inr (JNull, False)"
        by (simp add: table_docs_sweep)
      with a show "(\<exists>rows. fst (getAllRows T (sweep now s)) = Inr rows
                        \<and> ID d \<notin> fst ` set rows)
                    \<and> fst (getRowByKey T (ID d) (sweep now s)) = Inr (JNull, False)"
        by blast
    qed
    from gone uniq show "d \<notin> set (table_docs (sweep now s) T)
               \<and> (distinct (map ID (table_docs s T)) \<longrightarrow>
                    (\<exists>rows. fst (getAllRows T (sweep now s)) = Inr rows
                        \<and> ID d \<notin> fst ` set rows)
                    \<and> fst (getRowByKey T (ID d) (sweep now s)) = Inr (JNull, False))"
      by blast
  qed
  from p1 p2 p3 p4 p5 p6 p7 show ?thesis
    by (intro conjI)
qed

lemma Connected_with_expiry: "Connected with_expiry"
  using Connected_three_keys by (simp add: with_expiry_def Connected_colls)

lemma with_expiry_table: "table_docs with_expiry ''T'' =
  [\<lparr>ID = ''user:1'', data = JNum 1, createdAt = 0, updatedAt = 0, expireAt = None\<rparr>,
   \<lparr>ID = ''session:42'', data = JNum 2, createdAt = 1, updatedAt = 1, expireAt = Some 5\<rparr>]"
  by (simp add: table_docs_def demo_defs driver_defs)

lemma with_expiry_indexes: "indexes with_expiry = [(''T'', ''expireAt'', 0)]"
  by (simp add: demo_defs driver_defs)

lemma with_expiry_naming: "naming with_expiry ''T'' = ''T''"
  by (simp add: demo_defs driver_defs)

theorem ttl_eventual_removal_witness:
  "Connected with_expiry \<and> ttl_indexed with_expiry ''T''
   \<and> trace (snd (prepare ''fresh'' with_expiry)) =
       trace with_expiry @ [(0, CreateIndex ''fresh'' ''expireAt'' 0)]
   \<and> ttl_indexed (snd (prepare ''fresh'' with_expiry)) ''fresh''
   \<and> prepare ''T'' with_expiry = (Inr (), with_expiry)
   \<and> fst (getAllRows ''T'' with_expiry) = Inr [(''user:1'', JNum 1), (''session:42'', JNum 2)]
   \<and> fst (getAllRows ''T'' (sweep 4 with_expiry)) =
       Inr [(''user:1'', JNum 1), (''session:42'', JNum 2)]
   \<and> fst (getAllRows ''T'' (sweep 10 with_expiry)) = Inr [(''user:1'', JNum 1)]
   \<and> fst (getRowByKey ''T'' ''session:42'' (sweep 10 with_expiry)) = Inr (JNull, False)"
proof -
  have h: "Connected with_expiry" by (rule Connected_with_expiry)
  have ix: "ttl_indexed with_expiry ''T''"
    by (simp add: ttl_indexed_def with_expiry_indexes with_expiry_naming)
  have new: "map_of (models with_expiry) ''fresh'' = None"
    by (simp add: demo_defs driver_defs)
  have old: "map_of (models with_expiry) ''T'' \<noteq> None"
    by (simp add: demo_defs driver_defs)
  have c: "conn with_expiry = Some 0"
    by (simp add: demo_defs driver_defs)
  have nm: "naming with_expiry ''fresh'' = ''fresh''"
    by (simp add: demo_defs driver_defs)
  have d: "\<lparr>ID = ''session:42'', data = JNum 2, createdAt = 1, updatedAt = 1,
            expireAt = Some 5\<rparr> \<in> set (table_docs with_expiry ''T'')"
    by (simp add: with_expiry_table)
  have u: "distinct (map ID (table_docs with_expiry ''T''))"
    by (simp add: with_expiry_table)
  show ?thesis
    using h ix new old c nm d u
      ttl_eventual_removal[OF h, of "''fresh''" "''k''" 10]
      ttl_eventual_removal[OF h, of "''T''" "''k''" 4]
      ttl_eventual_removal[OF h, of "''T''" "''k''" 10]
    by (simp add: with_expiry_table with_expiry_indexes with_expiry_naming ttl_due_def)
qed

end
